theory Spec2Isabelle
  imports Complex_Main "HOL-Library.Word"
begin

unbundle bit_operations_syntax

section \<open>Common conventions of the embedding\<close>

text \<open>
  Samples and filter coefficients are C++ \<^verbatim>\<open>float\<close> and \<^verbatim>\<open>double\<close> values; the
  embedding computes them with \<^typ>\<open>real\<close>, so their rounding, infinities and NaN are
  outside the model.  (The doubles that are property values are the type \<open>double\<close>
  of the property dispatcher below, which has the infinities and NaN.)  A raw sample
  pointer (\<^verbatim>\<open>float *\<close>) and a fixed-size C array are functions from an index to the
  element stored there: a pointer has no length, and \<^verbatim>\<open>p + k\<close> is the function
  shifted by \<open>k\<close>.  Distinct pointers are distinct buffers (no aliasing between the
  input and the output of a call).
\<close>

type_synonym buf = "nat \<Rightarrow> real"

text \<open>\<^verbatim>\<open>config::SR\<close>, \<^verbatim>\<open>config::BLOCK_SIZE\<close> and \<^verbatim>\<open>config::MAX_CHANNELS\<close> of config.hpp.\<close>

definition SR :: int where
  "SR = 44100"

definition BLOCK_SIZE :: nat where
  "BLOCK_SIZE = 256"

definition MAX_CHANNELS :: nat where
  "MAX_CHANNELS = 16"

text \<open>
  \<^verbatim>\<open>std::fill(p, p + n, 0.0f)\<close>, and the write of one frame of \<open>C\<close> samples at
  \<^verbatim>\<open>p + C * i\<close>.
\<close>

definition fill_zero :: "nat \<Rightarrow> buf \<Rightarrow> buf" where
  "fill_zero n p = (\<lambda>k. if k < n then 0 else p k)"

definition frame_at :: "nat \<Rightarrow> nat \<Rightarrow> buf \<Rightarrow> buf" where
  "frame_at C i p = (\<lambda>c. p (C * i + c))"

definition write_frame :: "nat \<Rightarrow> nat \<Rightarrow> buf \<Rightarrow> buf \<Rightarrow> buf" where
  "write_frame C i fr p = (\<lambda>k. if C * i \<le> k \<and> k < C * i + C then fr (k - C * i) else p k)"

section \<open>The biquad filter (biquad.cpp)\<close>

text \<open>
  \<^verbatim>\<open>struct syz_BiquadConfig\<close> of the C API and the library's internal
  \<^verbatim>\<open>BiquadFilterDef\<close> (numerator \<^verbatim>\<open>num_coefs[3]\<close>, denominator \<^verbatim>\<open>den_coefs[2]\<close>, gain).
\<close>

record syz_BiquadConfig =
  b0 :: real
  b1 :: real
  b2 :: real
  a1 :: real
  a2 :: real
  gain :: real

record BiquadFilterDef =
  num_coefs :: "nat \<Rightarrow> real"
  den_coefs :: "nat \<Rightarrow> real"
  def_gain :: real

text \<open>
  \<^verbatim>\<open>ConcreteBiquadFilter<CHANNELS>\<close>: two \<^verbatim>\<open>IIRFilter<CHANNELS, 3, 3>\<close>, the crossfade
  flag and the index of the active filter (an \<^verbatim>\<open>unsigned char\<close>).  The class
  \<^verbatim>\<open>IIRFilter\<close> is declared in iir_filter.hpp, which is not among the sources: its
  state is the type parameter \<open>'f\<close>, and its two methods are parameters of the
  functions below,
  \<^item> \<open>setParameters f def\<close>, the filter \<open>f\<close> reconfigured with \<open>def\<close>;
  \<^item> \<open>tick f in_frame\<close>, the filter after one frame and the frame it wrote (the
    filter always sets its output frame, it never adds to it).
\<close>

record 'f ConcreteBiquadFilter =
  filters :: "nat \<Rightarrow> 'f"
  crossfade :: bool
  active :: "8 word"

text \<open>
  The constructor: both filters, default-constructed (\<open>fresh\<close>), take the parameters
  of \<^verbatim>\<open>designWire()\<close> (a function of filter_design.hpp, a parameter here); no
  crossfade, filter 0 active.
\<close>

definition ConcreteBiquadFilter_new ::
  "('f \<Rightarrow> BiquadFilterDef \<Rightarrow> 'f) \<Rightarrow> BiquadFilterDef \<Rightarrow> 'f \<Rightarrow> 'f ConcreteBiquadFilter" where
  "ConcreteBiquadFilter_new setParameters designWire fresh =
     \<lparr> filters = (\<lambda>_. setParameters fresh designWire), crossfade = False, active = 0 \<rparr>"

definition configure ::
  "('f \<Rightarrow> BiquadFilterDef \<Rightarrow> 'f) \<Rightarrow> syz_BiquadConfig \<Rightarrow>
   'f ConcreteBiquadFilter \<Rightarrow> 'f ConcreteBiquadFilter" where
  "configure setParameters config this =
     (let def = \<lparr> num_coefs = (\<lambda>k. if k = 0 then b0 config else if k = 1 then b1 config
                                     else b2 config),
                   den_coefs = (\<lambda>k. if k = 0 then a1 config else a2 config),
                   def_gain = gain config \<rparr>;
          inactive = unat (active this XOR 1)
      in this\<lparr> filters := (filters this)(inactive := setParameters (filters this inactive) def),
               crossfade := True \<rparr>)"

text \<open>
  One iteration of the loop of \<^verbatim>\<open>processBlockImpl<ADD, CROSSFADE>\<close>, for the frame
  \<open>i\<close>.  The loop state is the two filters (\<^verbatim>\<open>*active\<close>, \<^verbatim>\<open>*inactive\<close>) and the
  output buffer; \<^verbatim>\<open>tmp\<close> and \<^verbatim>\<open>cf_tmp\<close> are local to the iteration and start at zero.
  The active filter ticks into \<^verbatim>\<open>out_frame\<close>, which is the frame of \<^verbatim>\<open>out\<close> when
  \<^verbatim>\<open>ADD || CROSSFADE\<close> and \<^verbatim>\<open>tmp\<close> otherwise.
\<close>

definition processFrame ::
  "bool \<Rightarrow> bool \<Rightarrow> ('f \<Rightarrow> buf \<Rightarrow> 'f \<times> buf) \<Rightarrow> nat \<Rightarrow> buf \<Rightarrow> nat \<Rightarrow>
   'f \<times> 'f \<times> buf \<Rightarrow> 'f \<times> 'f \<times> buf" where
  "processFrame ADD CROSSFADE tick CHANNELS inp i st =
     (case st of (act, inact, out) \<Rightarrow>
       let gain_inv = 1 / real BLOCK_SIZE;
           tmp0 = (\<lambda>c. 0);
           in_frame = frame_at CHANNELS i inp;
           to_out = (ADD \<or> CROSSFADE);
           ticked = tick act in_frame;
           out1 = (if to_out then write_frame CHANNELS i (snd ticked) out else out);
           tmp1 = (if to_out then tmp0 else snd ticked);
           cf = (if CROSSFADE then tick inact in_frame else (inact, (\<lambda>c. 0)));
           w2 = real i * gain_inv;
           w1 = 1 - w2;
           tmp2 = (if CROSSFADE then (\<lambda>c. snd cf c * w1 + tmp1 c * w2) else tmp1);
           out2 = (if CROSSFADE \<or> ADD
                   then write_frame CHANNELS i
                          (\<lambda>c. if ADD then frame_at CHANNELS i out1 c + tmp2 c else tmp2 c) out1
                   else out1)
       in (fst ticked, fst cf, out2))"

text \<open>
  \<^verbatim>\<open>processBlockImpl<ADD, CROSSFADE>(in, out)\<close>: the loop over the \<^verbatim>\<open>BLOCK_SIZE\<close>
  frames.  The two pointers \<^verbatim>\<open>active\<close> and \<^verbatim>\<open>inactive\<close> name different elements of
  \<^verbatim>\<open>filters\<close> (\<open>a XOR 1 \<noteq> a\<close>), so the filters are threaded through the loop and
  stored back.  The function touches neither the crossfade flag nor the active index.
\<close>

definition processBlockImpl ::
  "bool \<Rightarrow> bool \<Rightarrow> ('f \<Rightarrow> buf \<Rightarrow> 'f \<times> buf) \<Rightarrow> nat \<Rightarrow>
   'f ConcreteBiquadFilter \<Rightarrow> buf \<Rightarrow> buf \<Rightarrow> 'f ConcreteBiquadFilter \<times> buf" where
  "processBlockImpl ADD CROSSFADE tick CHANNELS this inp out =
     (let a = unat (active this);
          b = unat (active this XOR 1);
          r = fold (processFrame ADD CROSSFADE tick CHANNELS inp) [0..<BLOCK_SIZE]
                (filters this a, filters this b, out)
      in (this\<lparr> filters := (filters this)(a := fst r, b := fst (snd r)) \<rparr>, snd (snd r)))"

text \<open>
  \<^verbatim>\<open>processBlock(in, out, add)\<close>.  Each of the four branches of the nested
  conditional is a \<^verbatim>\<open>return\<close> statement; the statements after the conditional
  (\<open>processBlock_tail\<close>: stop crossfading and flip the active filter) run only when
  control falls out of the conditional.  \<open>flow\<close> records which of the two happened.
\<close>

datatype 'a flow = Return 'a | Fallthrough 'a

definition processBlock_dispatch ::
  "('f \<Rightarrow> buf \<Rightarrow> 'f \<times> buf) \<Rightarrow> nat \<Rightarrow> bool \<Rightarrow>
   'f ConcreteBiquadFilter \<Rightarrow> buf \<Rightarrow> buf \<Rightarrow> ('f ConcreteBiquadFilter \<times> buf) flow" where
  "processBlock_dispatch tick CHANNELS add this inp out =
     (if add then
        (if crossfade this then Return (processBlockImpl True True tick CHANNELS this inp out)
         else Return (processBlockImpl True False tick CHANNELS this inp out))
      else
        (if crossfade this then Return (processBlockImpl False True tick CHANNELS this inp out)
         else Return (processBlockImpl False True tick CHANNELS this inp out)))"

definition processBlock_tail :: "'f ConcreteBiquadFilter \<Rightarrow> 'f ConcreteBiquadFilter" where
  "processBlock_tail this =
     (if crossfade this then this\<lparr> crossfade := False, active := active this XOR 1 \<rparr>
      else this)"

definition processBlock ::
  "('f \<Rightarrow> buf \<Rightarrow> 'f \<times> buf) \<Rightarrow> nat \<Rightarrow> bool \<Rightarrow>
   'f ConcreteBiquadFilter \<Rightarrow> buf \<Rightarrow> buf \<Rightarrow> 'f ConcreteBiquadFilter \<times> buf" where
  "processBlock tick CHANNELS add this inp out =
     (case processBlock_dispatch tick CHANNELS add this inp out of
        Return r \<Rightarrow> r
      | Fallthrough r \<Rightarrow> (processBlock_tail (fst r), snd r))"

text \<open>
  The filter states and the frames a filter writes while it is ticked over the frames
  \<open>0, 1, \<dots>\<close> of one input block, and the value \<^verbatim>\<open>processBlockImpl<ADD, CROSSFADE>\<close>
  leaves at index \<open>k\<close> of the output (frame \<open>k div C\<close>, channel \<open>k mod C\<close>), read off
  the loop body.  They state what the loop computes; the lemma \<open>fold_processFrame\<close>
  proves it of the loop.
\<close>

primrec ticks :: "('f \<Rightarrow> buf \<Rightarrow> 'f \<times> buf) \<Rightarrow> nat \<Rightarrow> buf \<Rightarrow> 'f \<Rightarrow> nat \<Rightarrow> 'f" where
  "ticks tick C inp f 0 = f"
| "ticks tick C inp f (Suc n) = fst (tick (ticks tick C inp f n) (frame_at C n inp))"

definition tick_out ::
  "('f \<Rightarrow> buf \<Rightarrow> 'f \<times> buf) \<Rightarrow> nat \<Rightarrow> buf \<Rightarrow> 'f \<Rightarrow> nat \<Rightarrow> buf" where
  "tick_out tick C inp f i = snd (tick (ticks tick C inp f i) (frame_at C i inp))"

definition block_result ::
  "bool \<Rightarrow> bool \<Rightarrow> ('f \<Rightarrow> buf \<Rightarrow> 'f \<times> buf) \<Rightarrow> nat \<Rightarrow> buf \<Rightarrow> 'f \<Rightarrow> 'f \<Rightarrow> buf \<Rightarrow> buf" where
  "block_result ADD CROSSFADE tick C inp act inact out k =
     (let i = k div C; c = k mod C;
          ya = tick_out tick C inp act i c;
          yi = tick_out tick C inp inact i c;
          w1 = 1 - real i / real BLOCK_SIZE
      in if CROSSFADE then (if ADD then ya + yi * w1 else yi * w1)
         else if ADD then ya else out k)"

text \<open>
  The blend the specification describes for the crossfading block, for comparison
  with the code: at frame \<open>i\<close> the inactive filter's output weighted by
  \<open>1 - i / BLOCK_SIZE\<close> plus the active filter's output weighted by \<open>i / BLOCK_SIZE\<close>,
  summed onto the existing output when adding.
\<close>

definition spec_crossfade_blend ::
  "bool \<Rightarrow> ('f \<Rightarrow> buf \<Rightarrow> 'f \<times> buf) \<Rightarrow> nat \<Rightarrow> buf \<Rightarrow> 'f \<Rightarrow> 'f \<Rightarrow> buf \<Rightarrow> buf" where
  "spec_crossfade_blend ADD tick C inp act inact out k =
     (let i = k div C; c = k mod C;
          w2 = real i / real BLOCK_SIZE;
          blend = (1 - w2) * tick_out tick C inp inact i c + w2 * tick_out tick C inp act i c
      in if ADD then out k + blend else blend)"

text \<open>
  A filter used to run the block functions on concrete inputs: its state is one
  coefficient \<open>g\<close>, a frame is scaled by \<open>g\<close>, and reconfiguring stores the
  definition's gain.  The wire has gain 1 and passes its input through; a freshly
  constructed object of one channel is \<open>fresh_biquad\<close>.  On the inputs used below
  every value the code computes (1, 1/2, 0) is a float, and no operation rounds.
\<close>

definition scale_tick :: "real \<Rightarrow> buf \<Rightarrow> real \<times> buf" where
  "scale_tick g fr = (g, (\<lambda>c. g * fr c))"

definition scale_setParameters :: "real \<Rightarrow> BiquadFilterDef \<Rightarrow> real" where
  "scale_setParameters g def = def_gain def"

definition wire_def :: BiquadFilterDef where
  "wire_def = \<lparr> num_coefs = (\<lambda>k. if k = 0 then 1 else 0), den_coefs = (\<lambda>k. 0), def_gain = 1 \<rparr>"

definition wire_config :: syz_BiquadConfig where
  "wire_config = \<lparr> b0 = 1, b1 = 0, b2 = 0, a1 = 0, a2 = 0, gain = 1 \<rparr>"

definition fresh_biquad :: "real ConcreteBiquadFilter" where
  "fresh_biquad = ConcreteBiquadFilter_new scale_setParameters wire_def 0"

section \<open>The C API of filter design\<close>

text \<open>
  \<^verbatim>\<open>convertBiquadDef\<close> and \<^verbatim>\<open>syz_designBiquadLowpass\<close>.  The design function
  \<^verbatim>\<open>designAudioEqLowpass\<close> is declared in filter_design.hpp, which is not among the
  sources: it is the parameter \<open>designAudioEqLowpass\<close>, a function of the normalised
  frequency and \<open>q\<close>.  The C function writes the configuration through the pointer
  \<^verbatim>\<open>filter\<close> and returns the error code; the model takes the previous content of
  \<^verbatim>\<open>*filter\<close> (\<open>filter_prev\<close>) and returns the code with the new content.  The macros
  \<^verbatim>\<open>SYZ_PROLOGUE\<close> and \<^verbatim>\<open>SYZ_EPILOGUE\<close> turn an exception into an error code; the
  design function is modelled as total, so the call returns 0.
\<close>

definition convertBiquadDef :: "BiquadFilterDef \<Rightarrow> syz_BiquadConfig" where
  "convertBiquadDef def =
     \<lparr> b0 = num_coefs def 0, b1 = num_coefs def 1, b2 = num_coefs def 2,
       a1 = den_coefs def 0, a2 = den_coefs def 1, gain = def_gain def \<rparr>"

definition syz_designBiquadLowpass ::
  "(real \<Rightarrow> real \<Rightarrow> BiquadFilterDef) \<Rightarrow> syz_BiquadConfig \<Rightarrow> real \<Rightarrow> real \<Rightarrow>
   int \<times> syz_BiquadConfig" where
  "syz_designBiquadLowpass designAudioEqLowpass filter_prev frequency q =
     (0, convertBiquadDef (designAudioEqLowpass (frequency / real_of_int SR) q))"

section \<open>The property dispatcher (property_impl.hpp)\<close>

text \<open>
  A \<^verbatim>\<open>double\<close> that is a property value or a bound of a property: a finite number,
  one of the two infinities, or NaN.  A finite double is given by the real it
  denotes; the dispatcher compares doubles and does no arithmetic on them, and a
  comparison of two doubles is exact.  \<open>double_less\<close> is the operator \<^verbatim>\<open><\<close> of C++ on
  doubles (\<^verbatim>\<open>a > b\<close> is \<^verbatim>\<open>b < a\<close>): every comparison with NaN is false.
\<close>

datatype double = Finite real | PlusInfinity | MinusInfinity | NaN



text \<open>
  One entry of a \<^verbatim>\<open>PROPERTY_LIST\<close> X-macro: the property id and, by kind, the
  inclusive range or the class an object must be cast to.  (The two name arguments
  of an entry only spell the accessors \<^verbatim>\<open>getName\<close> and \<^verbatim>\<open>setName\<close>.)  \<open>'c\<close> is the type
  of class names.
\<close>

datatype 'c property_entry =
    INT_P int int int
  | DOUBLE_P int double double
  | OBJECT_P int 'c
  | DOUBLE3_P int
  | DOUBLE6_P int

fun entry_id :: "'c property_entry \<Rightarrow> int" where
  "entry_id (INT_P p mn mx) = p"
| "entry_id (DOUBLE_P p mn mx) = p"
| "entry_id (OBJECT_P p cls) = p"
| "entry_id (DOUBLE3_P p) = p"
| "entry_id (DOUBLE6_P p) = p"

text \<open>
  A class that includes property_impl.hpp names its \<^verbatim>\<open>PROPERTY_LIST\<close> and its
  \<^verbatim>\<open>PROPERTY_BASE\<close>; the chain of bases ends at \<^verbatim>\<open>BaseObject\<close>, whose methods are in
  base_object.hpp, not among the sources: they are the parameters \<open>base_has\<close>,
  \<open>base_get\<close>, \<open>base_validate\<close> and \<open>base_set\<close> below.
\<close>

datatype 'c property_class = BaseObject | Class "'c property_entry list" "'c property_class"


text \<open>The case label of a \<^verbatim>\<open>switch (property)\<close> over the list that matches, if any.\<close>

definition switch_case :: "'c property_entry list \<Rightarrow> int \<Rightarrow> 'c property_entry option" where
  "switch_case PROPERTY_LIST property = find (\<lambda>e. entry_id e = property) PROPERTY_LIST"

text \<open>
  \<^verbatim>\<open>hasProperty\<close>.  A case label returns true.  The default label calls the base
  class's \<^verbatim>\<open>hasProperty\<close> as an expression statement: the value is dropped, control
  leaves the switch, and the function returns false.
\<close>

fun hasProperty :: "(int \<Rightarrow> bool) \<Rightarrow> 'c property_class \<Rightarrow> int \<Rightarrow> bool" where
  "hasProperty base_has BaseObject property = base_has property"
| "hasProperty base_has (Class PROPERTY_LIST PROPERTY_BASE) property =
     (case (case switch_case PROPERTY_LIST property of
              Some e \<Rightarrow> Return True
            | None \<Rightarrow> Fallthrough (hasProperty base_has PROPERTY_BASE property)) of
        Return b \<Rightarrow> b
      | Fallthrough dropped \<Rightarrow> False)"

text \<open>
  The properties declared along a chain, for comparison with \<open>hasProperty\<close>: what the
  specification says the dispatcher answers.
\<close>

fun declares :: "'c property_class \<Rightarrow> int \<Rightarrow> bool" where
  "declares BaseObject property = False"
| "declares (Class PROPERTY_LIST PROPERTY_BASE) property =
     (switch_case PROPERTY_LIST property \<noteq> None \<or> declares PROPERTY_BASE property)"














text \<open>
  Property ids of \<^verbatim>\<open>enum SYZ_PROPERTIES\<close> (synthizer_constants.h), the largest
  finite double, and two property lists in the shape the X-macros give them, used to
  run the dispatcher on concrete classes: a panned source, whose base is the source,
  and a buffer generator.  An object is named by the name of its class.
  (synthizer_properties.h, which holds the library's lists, is not among the sources.)
\<close>

definition SYZ_P_AZIMUTH :: int where
  "SYZ_P_AZIMUTH = 0"

definition SYZ_P_ELEVATION :: int where
  "SYZ_P_ELEVATION = 7"

definition SYZ_P_GAIN :: int where
  "SYZ_P_GAIN = 8"

definition SYZ_P_PANNER_STRATEGY :: int where
  "SYZ_P_PANNER_STRATEGY = 9"

definition SYZ_P_PANNING_SCALAR :: int where
  "SYZ_P_PANNING_SCALAR = 10"

definition SYZ_P_BUFFER :: int where
  "SYZ_P_BUFFER = 1"

definition SYZ_P_LOOPING :: int where
  "SYZ_P_LOOPING = 14"

definition P_DOUBLE_MAX :: real where
  "P_DOUBLE_MAX = (2 ^ 53 - 1) * 2 ^ 971"

definition SOURCE_PROPERTIES :: "string property_entry list" where
  "SOURCE_PROPERTIES = [DOUBLE_P SYZ_P_GAIN (Finite 0) (Finite P_DOUBLE_MAX)]"

definition PANNED_SOURCE_PROPERTIES :: "string property_entry list" where
  "PANNED_SOURCE_PROPERTIES =
     [DOUBLE_P SYZ_P_AZIMUTH (Finite 0) (Finite 360),
      DOUBLE_P SYZ_P_ELEVATION (Finite (- 90)) (Finite 90),
      DOUBLE_P SYZ_P_PANNING_SCALAR (Finite (- 1)) (Finite 1),
      INT_P SYZ_P_PANNER_STRATEGY 0 1]"

definition BUFFER_GENERATOR_PROPERTIES :: "string property_entry list" where
  "BUFFER_GENERATOR_PROPERTIES = [OBJECT_P SYZ_P_BUFFER ''Buffer'', INT_P SYZ_P_LOOPING 0 1]"


definition Source_class :: "string property_class" where
  "Source_class = Class SOURCE_PROPERTIES BaseObject"

definition PannedSource_class :: "string property_class" where
  "PannedSource_class = Class PANNED_SOURCE_PROPERTIES Source_class"

section \<open>Sources and their generators (sources.cpp)\<close>

text \<open>
  A generator is identified by the address of its control block, a \<open>gid\<close>.  The heap
  maps the generators that are alive to their state (\<open>'g\<close>); \<^verbatim>\<open>std::weak_ptr\<close> is a
  \<open>gid\<close>, and \<^verbatim>\<open>lock()\<close> gives the shared pointer when the generator is alive and
  \<^verbatim>\<open>nullptr\<close> (\<open>None\<close>) when it has expired.  A \<^verbatim>\<open>std::shared_ptr<Generator> &\<close> argument
  is the \<open>gid\<close> of a generator; whoever holds it keeps the generator alive.
\<close>

type_synonym gid = nat

type_synonym 'g heap = "gid \<Rightarrow> 'g option"

definition lock :: "'g heap \<Rightarrow> gid \<Rightarrow> gid option" where
  "lock h w = (case h w of None \<Rightarrow> None | Some g \<Rightarrow> Some w)"

text \<open>
  The calls a block makes to its collaborators, in order: the model records them so
  that "is invoked" can be stated.
\<close>

datatype event = Ev_tickPausable | Ev_run gid | Ev_routeAudio nat

text \<open>
  \<^verbatim>\<open>Source\<close>: the vector of weak pointers to the generators, the block buffer, and
  \<open>rest\<close>, the members whose classes are not among the sources (the pausable state,
  the gain property, the gain fader, the output handle).  The methods of those
  classes, the virtual methods of \<^verbatim>\<open>Generator\<close> and \<^verbatim>\<open>mixChannels\<close> are the fields of
  \<open>collaborators\<close>, parameters of \<open>fillBlock\<close>:
  \<^item> \<open>acquireGain r\<close>: whether the gain property changed and the value left in
    \<^verbatim>\<open>gain_prop\<close>, with the new state;
  \<^item> \<open>gain_fader_drive time r\<close>: the callback \<^verbatim>\<open>gain_cb\<close> the fader hands out;
  \<^item> \<open>run g p\<close>: the generator after running and the buffer \<open>p\<close> it has written to;
  \<^item> \<open>mixChannels n src nch dst ch\<close>: the destination after mixing.
\<close>

record 'r Source =
  generators :: "gid list"
  block :: buf
  rest :: 'r

record ('r, 'g) collaborators =
  acquireGain :: "'r \<Rightarrow> (bool \<times> real) \<times> 'r"
  shouldIncorporatePausableGain :: "'r \<Rightarrow> bool \<times> 'r"
  getPausableGain :: "'r \<Rightarrow> real"
  gain_fader_setValue :: "nat \<Rightarrow> real \<Rightarrow> 'r \<Rightarrow> 'r"
  isPaused :: "'r \<Rightarrow> bool"
  tickPausable :: "'r \<Rightarrow> 'r"
  gain_fader_drive :: "nat \<Rightarrow> 'r \<Rightarrow> (nat \<Rightarrow> real) \<times> 'r"
  routeAudio :: "buf \<Rightarrow> nat \<Rightarrow> 'r \<Rightarrow> 'r"
  getChannels :: "'g \<Rightarrow> nat"
  run :: "'g \<Rightarrow> buf \<Rightarrow> 'g \<times> buf"
  mixChannels :: "nat \<Rightarrow> buf \<Rightarrow> nat \<Rightarrow> buf \<Rightarrow> nat \<Rightarrow> buf"

text \<open>
  Modelled from the spec: \<^verbatim>\<open>weak_vector::contains\<close> and
  \<^verbatim>\<open>weak_vector::iterate_removing\<close> (vector_helpers.hpp is not among the sources).
  \<open>contains\<close> says whether some weak pointer of the vector locks to the given
  generator.  \<open>iterate_removing\<close> is the specification's "upgrade each weak ref; if
  expired, remove; otherwise" call the callback: the elements are visited in the
  order of the vector and the survivors keep their order.  The state \<open>s\<close> the callback
  works on holds the heap, read by \<open>heap_of\<close>.
\<close>

fun contains :: "'g heap \<Rightarrow> gid list \<Rightarrow> gid \<Rightarrow> bool" where
  "contains h [] x = False"
| "contains h (w # ws) x = (if lock h w = Some x then True else contains h ws x)"

fun iterate_removing ::
  "('s \<Rightarrow> 'g heap) \<Rightarrow> gid list \<Rightarrow> (gid \<Rightarrow> 'g \<Rightarrow> 's \<Rightarrow> 's) \<Rightarrow> 's \<Rightarrow> gid list \<times> 's" where
  "iterate_removing heap_of [] c s = ([], s)"
| "iterate_removing heap_of (w # ws) c s =
     (case heap_of s w of
        None \<Rightarrow> iterate_removing heap_of ws c s
      | Some g \<Rightarrow>
          (let r = iterate_removing heap_of ws c (c w g s) in (w # fst r, snd r)))"

definition hasGenerator :: "'g heap \<Rightarrow> 'r Source \<Rightarrow> gid \<Rightarrow> bool" where
  "hasGenerator h this generator = contains h (generators this) generator"

definition addGenerator :: "'g heap \<Rightarrow> gid \<Rightarrow> 'r Source \<Rightarrow> 'r Source" where
  "addGenerator h generator this =
     (if hasGenerator h this generator then this
      else this\<lparr> generators := generators this @ [generator] \<rparr>)"

text \<open>
  The search loop of \<^verbatim>\<open>removeGenerator\<close>: the first index whose weak pointer locks to
  the generator, or the size of the vector when there is none.
\<close>

fun search_index :: "'g heap \<Rightarrow> gid list \<Rightarrow> gid \<Rightarrow> nat" where
  "search_index h [] x = 0"
| "search_index h (w # ws) x = (if lock h w = Some x then 0 else Suc (search_index h ws x))"

definition removeGenerator :: "'g heap \<Rightarrow> gid \<Rightarrow> 'r Source \<Rightarrow> 'r Source" where
  "removeGenerator h generator this =
     (if generators this = [] then this
      else if hasGenerator h this generator = False then this
      else
        (let index = search_index h (generators this) generator;
             n = length (generators this);
             swapped = (generators this)
                         [n - 1 := generators this ! index, index := generators this ! (n - 1)]
         in this\<lparr> generators := take (n - 1) swapped \<rparr>))"

text \<open>
  The first statements of \<^verbatim>\<open>fillBlock\<close>: the gain property and the pausable gain are
  folded into the gain fader.  The second operand of \<^verbatim>\<open>||\<close> is evaluated only when
  the first is false.
\<close>

definition update_gain :: "('r, 'g) collaborators \<Rightarrow> nat \<Rightarrow> 'r \<Rightarrow> 'r" where
  "update_gain d time r =
     (let acquired = acquireGain d r;
          gain_prop = snd (fst acquired);
          cond = (if fst (fst acquired) then (True, snd acquired)
                  else shouldIncorporatePausableGain d (snd acquired))
      in if fst cond
         then gain_fader_setValue d time (gain_prop * getPausableGain d (snd cond)) (snd cond)
         else snd cond)"

text \<open>
  The state of the loop over the generators, and the callback passed to
  \<^verbatim>\<open>iterate_removing\<close>: a generator of no channels returns at once; one of the
  source's channel count runs into the block; any other runs into the zeroed premix
  buffer, which is then mixed into the block.
\<close>

record 'g mixing =
  heap :: "'g heap"
  premix :: buf
  mixed :: buf
  calls :: "event list"

definition fillBlock_callback ::
  "('r, 'g) collaborators \<Rightarrow> nat \<Rightarrow> gid \<Rightarrow> 'g \<Rightarrow> 'g mixing \<Rightarrow> 'g mixing" where
  "fillBlock_callback d channels w g s =
     (let nch = getChannels d g
      in if nch = 0 then s
         else if nch = channels then
           (let ran = run d g (mixed s)
            in s\<lparr> heap := (heap s)(w \<mapsto> fst ran), mixed := snd ran,
                   calls := calls s @ [Ev_run w] \<rparr>)
         else
           (let ran = run d g (fill_zero (BLOCK_SIZE * nch) (premix s))
            in s\<lparr> heap := (heap s)(w \<mapsto> fst ran), premix := snd ran,
                   mixed := mixChannels d BLOCK_SIZE (snd ran) nch (mixed s) channels,
                   calls := calls s @ [Ev_run w] \<rparr>))"

text \<open>
  The gain loop: sample \<open>i * channels + ch\<close> of the block is multiplied by
  \<^verbatim>\<open>gain_cb(i)\<close>, for \<open>i < BLOCK_SIZE\<close> and \<open>ch < channels\<close>.
\<close>

definition apply_gain :: "nat \<Rightarrow> (nat \<Rightarrow> real) \<Rightarrow> buf \<Rightarrow> buf" where
  "apply_gain channels gain_cb b =
     fold (\<lambda>i b1. fold (\<lambda>ch b2. b2(i * channels + ch := b2 (i * channels + ch) * gain_cb i))
                     [0..<channels] b1)
       [0..<BLOCK_SIZE] b"

text \<open>
  \<^verbatim>\<open>Source::fillBlock(channels)\<close>, with the block time of the context, the heap of
  generators and the source; the result is the heap, the source and the calls made.
  The premix buffer comes zeroed from the block buffer cache.
\<close>

definition fillBlock ::
  "('r, 'g) collaborators \<Rightarrow> nat \<Rightarrow> nat \<Rightarrow> 'g heap \<Rightarrow> 'r Source \<Rightarrow>
   'g heap \<times> 'r Source \<times> event list" where
  "fillBlock d time channels h this =
     (let r1 = update_gain d time (rest this);
          block1 = fill_zero (channels * BLOCK_SIZE) (block this)
      in if isPaused d r1 then (h, this\<lparr> block := block1, rest := r1 \<rparr>, [])
         else
           (let r2 = tickPausable d r1;
                it = iterate_removing heap (generators this) (fillBlock_callback d channels)
                       \<lparr> heap = h, premix = (\<lambda>k. 0), mixed = block1,
                         calls = [Ev_tickPausable] \<rparr>;
                driven = gain_fader_drive d time r2;
                block2 = apply_gain channels (fst driven) (mixed (snd it));
                r3 = routeAudio d block2 channels (snd driven)
            in (heap (snd it),
                this\<lparr> generators := fst it, block := block2, rest := r3 \<rparr>,
                calls (snd it) @ [Ev_routeAudio channels])))"

text \<open>
  Collaborators used to run \<open>fillBlock\<close> on concrete sources.  The rest of the source
  is the pause flag and the number of ticks of the pausable state; a generator is its
  channel count and a level it adds to every sample it writes; the gain is 1.
\<close>

definition demo :: "(bool \<times> nat, nat \<times> real) collaborators" where
  "demo =
     \<lparr> acquireGain = (\<lambda>r. ((False, 1), r)),
       shouldIncorporatePausableGain = (\<lambda>r. (False, r)),
       getPausableGain = (\<lambda>r. 1),
       gain_fader_setValue = (\<lambda>time v r. r),
       isPaused = fst,
       tickPausable = (\<lambda>r. (fst r, Suc (snd r))),
       gain_fader_drive = (\<lambda>time r. ((\<lambda>i. 1), r)),
       routeAudio = (\<lambda>b channels r. r),
       getChannels = fst,
       run = (\<lambda>g p. (g, (\<lambda>k. if k < fst g * BLOCK_SIZE then p k + snd g else p k))),
       mixChannels = (\<lambda>n src nch dst ch. (\<lambda>k. dst k + src ((k div ch) * nch))) \<rparr>"

text \<open>
  A heap of three generators (3: two channels; 5: no channels; 7: one channel), a
  running source of two channels that holds the first two, and a paused source.
\<close>

definition demo_heap :: "(nat \<times> real) heap" where
  "demo_heap = (\<lambda>w. if w = 3 then Some (2, 1 / 4) else if w = 5 then Some (0, 1)
                     else if w = 7 then Some (1, 1 / 2) else None)"

definition two_gen_source :: "(bool \<times> nat) Source" where
  "two_gen_source = \<lparr> generators = [3, 5], block = (\<lambda>k. 1), rest = (False, 0) \<rparr>"

definition paused_source :: "(bool \<times> nat) Source" where
  "paused_source = \<lparr> generators = [3], block = (\<lambda>k. 1), rest = (True, 0) \<rparr>"

section \<open>Properties of the biquad filter\<close>

lemma processFrame_out_other:
  "k < CHANNELS * i \<or> CHANNELS * i + CHANNELS \<le> k \<Longrightarrow>
   snd (snd (processFrame ADD CROSSFADE tick CHANNELS inp i (act, inact, out))) k = out k"
  by (auto simp: processFrame_def Let_def write_frame_def)

lemma offset_split:
  fixes m k C :: nat
  shows "m \<le> k \<Longrightarrow> k < m + C \<Longrightarrow> k = (k - m) + m \<and> k - m < C"
  by arith

lemma frame_index:
  fixes C n k :: nat
  assumes "C * n \<le> k" "k < C * n + C"
  shows "k div C = n" "k mod C = k - C * n"
proof -
  define r where "r = k - C * n"
  have r: "k = r + C * n" "r < C"
    using offset_split[OF assms] unfolding r_def by blast+
  show "k div C = n" using r by simp
  show "k mod C = k - C * n" using r by simp
qed

lemma processFrame_fst:
  "fst (processFrame ADD CF tick C inp n (a, b, c)) = fst (tick a (frame_at C n inp))"
  by (simp add: processFrame_def Let_def)

lemma processFrame_snd:
  "fst (snd (processFrame ADD CF tick C inp n (a, b, c))) =
     (if CF then fst (tick b (frame_at C n inp)) else b)"
  by (simp add: processFrame_def Let_def)

lemma processFrame_out_frame:
  assumes "C * n \<le> k" "k < C * n + C"
  shows "snd (snd (processFrame ADD CF tick C inp n (a, b, out))) k =
     (if CF then (if ADD then snd (tick a (frame_at C n inp)) (k - C * n)
                              + snd (tick b (frame_at C n inp)) (k - C * n) * (1 - real n / real BLOCK_SIZE)
                  else snd (tick b (frame_at C n inp)) (k - C * n) * (1 - real n / real BLOCK_SIZE))
      else if ADD then snd (tick a (frame_at C n inp)) (k - C * n) else out k)"
  using assms
  by (cases ADD; cases CF) (simp_all add: processFrame_def Let_def write_frame_def frame_at_def)

lemma processFrame_step:
  "processFrame ADD CF tick C inp n
     (ticks tick C inp act n, (if CF then ticks tick C inp inact n else inact),
      (\<lambda>k. if k < C * n then block_result ADD CF tick C inp act inact out k else out k)) =
   (ticks tick C inp act (Suc n), (if CF then ticks tick C inp inact (Suc n) else inact),
      (\<lambda>k. if k < C * Suc n then block_result ADD CF tick C inp act inact out k else out k))"
  (is "processFrame ADD CF tick C inp n (?a, ?b, ?o) = (?a', ?b', ?o')")
proof -
  have "snd (snd (processFrame ADD CF tick C inp n (?a, ?b, ?o))) k = ?o' k" for k
  proof (cases "C * n \<le> k \<and> k < C * n + C")
    case True
    then have d: "k div C = n" "k mod C = k - C * n" "\<not> k < C * n" "k < C * Suc n"
      by (auto simp: frame_index)
    show ?thesis
      using True d
      by (simp add: processFrame_out_frame block_result_def tick_out_def Let_def)
  next
    case False
    then have o: "k < C * n \<or> C * n + C \<le> k" by auto
    have "snd (snd (processFrame ADD CF tick C inp n (?a, ?b, ?o))) k = ?o k"
      using o by (rule processFrame_out_other)
    also have "\<dots> = ?o' k"
      using False by auto
    finally show ?thesis .
  qed
  then have "snd (snd (processFrame ADD CF tick C inp n (?a, ?b, ?o))) = ?o'"
    by (rule ext)
  moreover have "fst (processFrame ADD CF tick C inp n (?a, ?b, ?o)) = ?a'"
    by (simp add: processFrame_fst)
  moreover have "fst (snd (processFrame ADD CF tick C inp n (?a, ?b, ?o))) = ?b'"
    by (simp add: processFrame_snd)
  ultimately show ?thesis
    by (intro prod_eqI) simp_all
qed

lemma fold_processFrame:
  "fold (processFrame ADD CF tick C inp) [0..<n] (act, inact, out) =
   (ticks tick C inp act n, (if CF then ticks tick C inp inact n else inact),
    (\<lambda>k. if k < C * n then block_result ADD CF tick C inp act inact out k else out k))"
proof (induction n)
  case 0
  show ?case by simp
next
  case (Suc n)
  have "fold (processFrame ADD CF tick C inp) [0..<Suc n] (act, inact, out) =
        processFrame ADD CF tick C inp n
          (fold (processFrame ADD CF tick C inp) [0..<n] (act, inact, out))"
    by simp
  also have "\<dots> = processFrame ADD CF tick C inp n
     (ticks tick C inp act n, (if CF then ticks tick C inp inact n else inact),
      (\<lambda>k. if k < C * n then block_result ADD CF tick C inp act inact out k else out k))"
    by (simp only: Suc.IH)
  finally show ?case
    by (simp only: processFrame_step)
qed

lemma processBlockImpl_out:
  "snd (processBlockImpl ADD CF tick C this inp out) =
     (\<lambda>k. if k < C * BLOCK_SIZE
          then block_result ADD CF tick C inp (filters this (unat (active this)))
                 (filters this (unat (active this XOR 1))) out k
          else out k)"
  by (simp add: processBlockImpl_def Let_def fold_processFrame)

lemma processBlockImpl_flags:
  "crossfade (fst (processBlockImpl ADD CF tick C this inp out)) = crossfade this"
  "active (fst (processBlockImpl ADD CF tick C this inp out)) = active this"
  by (simp_all add: processBlockImpl_def Let_def)

lemma processBlock_dispatch_returns:
  "processBlock_dispatch tick C add this inp out \<noteq> Fallthrough r"
  by (simp add: processBlock_dispatch_def)

lemma processBlock_eq:
  "processBlock tick C add this inp out =
     processBlockImpl add (add \<longrightarrow> crossfade this) tick C this inp out"
  by (simp add: processBlock_def processBlock_dispatch_def)

lemma configure_flags:
  "crossfade (configure setParameters config this)"
  "active (configure setParameters config this) = active this"
  by (simp_all add: configure_def Let_def)

lemma processBlockImpl_plain:
  "snd (processBlockImpl False False tick C this inp out) = out"
  unfolding processBlockImpl_out
  by (rule ext) (simp add: block_result_def)

lemma active_xor_distinct: "unat (a XOR 1) \<noteq> unat (a :: 8 word)"
proof
  assume "unat (a XOR 1) = unat a"
  then have "a XOR 1 = a" by (simp add: word_unat_eq_iff)
  then have "a XOR (a XOR 1) = a XOR a" by simp
  then show False by (simp add: xor.assoc [symmetric])
qed

lemma fresh_biquad_simps:
  "filters fresh_biquad k = 1" "\<not> crossfade fresh_biquad" "active fresh_biquad = 0"
  "filters (configure scale_setParameters wire_config fresh_biquad) k = 1"
  by (simp_all add: fresh_biquad_def ConcreteBiquadFilter_new_def scale_setParameters_def
        wire_def_def wire_config_def configure_def Let_def)

lemma ticks_scale: "ticks scale_tick C inp g n = g"
  by (induction n) (simp_all add: scale_tick_def)

lemma tick_out_scale: "tick_out scale_tick C inp g i c = g * inp (C * i + c)"
  by (simp add: tick_out_def ticks_scale scale_tick_def frame_at_def)

section \<open>Properties of sources and their generator lists\<close>

lemma lock_eq_Some: "lock h w = Some x \<longleftrightarrow> w = x \<and> h x \<noteq> None"
  by (auto simp: lock_def split: option.splits)

lemma contains_iff: "contains h ws x \<longleftrightarrow> x \<in> set ws \<and> h x \<noteq> None"
  by (induction ws) (auto simp: lock_eq_Some)

lemma search_index_found:
  "x \<in> set ws \<Longrightarrow> h x \<noteq> None \<Longrightarrow>
   search_index h ws x < length ws \<and> ws ! search_index h ws x = x"
  by (induction ws) (auto simp: lock_eq_Some)

lemma swap_remove_nth:
  assumes "i < length ws" "j < length ws - 1"
  shows "take (length ws - 1) (ws[length ws - 1 := ws ! i, i := ws ! (length ws - 1)]) ! j
         = (if j = i then ws ! (length ws - 1) else ws ! j)"
  using assms by (simp add: nth_list_update)

lemma swap_remove_length:
  "length (take (length ws - 1) (ws[length ws - 1 := a, i := b])) = length ws - 1"
  by simp

lemma swap_remove_set:
  assumes "distinct ws" "i < length ws"
  shows "set (take (length ws - 1) (ws[length ws - 1 := ws ! i, i := ws ! (length ws - 1)]))
         = set ws - {ws ! i}"
proof -
  let ?m = "length ws - 1"
  let ?r = "take ?m (ws[?m := ws ! i, i := ws ! ?m])"
  have m: "?m < length ws" using assms by auto
  show ?thesis
  proof (intro set_eqI iffI)
    fix x assume "x \<in> set ?r"
    then obtain j where j: "j < ?m" "?r ! j = x"
      unfolding in_set_conv_nth swap_remove_length by blast
    have x: "x = (if j = i then ws ! ?m else ws ! j)"
      using swap_remove_nth[OF assms(2) j(1)] j(2) by simp
    show "x \<in> set ws - {ws ! i}"
    proof (cases "j = i")
      case True
      then have "x = ws ! ?m" "?m \<noteq> i" using x j by auto
      then show ?thesis using assms m by (auto simp: nth_eq_iff_index_eq)
    next
      case False
      then have "x = ws ! j" "j < length ws" using x j by auto
      then show ?thesis using assms False by (auto simp: nth_eq_iff_index_eq)
    qed
  next
    fix x assume "x \<in> set ws - {ws ! i}"
    then obtain k where k: "k < length ws" "ws ! k = x" "k \<noteq> i"
      by (auto simp: in_set_conv_nth)
    show "x \<in> set ?r"
    proof (cases "k = ?m")
      case True
      then have "i < ?m" using k assms by auto
      moreover from this have "?r ! i = x"
        using swap_remove_nth[OF assms(2), of i] k True by simp
      ultimately show ?thesis
        unfolding in_set_conv_nth swap_remove_length by blast
    next
      case False
      then have "k < ?m" using k by auto
      moreover from this have "?r ! k = x"
        using swap_remove_nth[OF assms(2), of k] k by simp
      ultimately show ?thesis
        unfolding in_set_conv_nth swap_remove_length by blast
    qed
  qed
qed

lemma swap_remove_distinct:
  assumes "distinct ws" "i < length ws"
  shows "distinct (take (length ws - 1) (ws[length ws - 1 := ws ! i, i := ws ! (length ws - 1)]))"
proof -
  let ?m = "length ws - 1"
  let ?r = "take ?m (ws[?m := ws ! i, i := ws ! ?m])"
  have "card (set ?r) = length ?r"
  proof -
    have "ws ! i \<in> set ws" using assms by simp
    then have "card (set ws - {ws ! i}) = card (set ws) - 1" by simp
    also have "\<dots> = length ws - 1" using assms by (simp add: distinct_card)
    finally show ?thesis
      unfolding swap_remove_set[OF assms] swap_remove_length .
  qed
  then show ?thesis by (rule card_distinct)
qed

lemma addGenerator_generators:
  "h x \<noteq> None \<Longrightarrow>
   generators (addGenerator h x this) =
     (if x \<in> set (generators this) then generators this else generators this @ [x])"
  by (simp add: addGenerator_def hasGenerator_def contains_iff)

lemma addGenerator_distinct:
  "h x \<noteq> None \<Longrightarrow> distinct (generators this) \<Longrightarrow> distinct (generators (addGenerator h x this))"
  by (simp add: addGenerator_generators)

lemma removeGenerator_set:
  assumes "h x \<noteq> None" "distinct (generators this)"
  shows "set (generators (removeGenerator h x this)) = set (generators this) - {x}"
proof (cases "x \<in> set (generators this)")
  case True
  then have ne: "generators this \<noteq> []" by auto
  have has: "hasGenerator h this x"
    using True assms by (simp add: hasGenerator_def contains_iff)
  have idx: "search_index h (generators this) x < length (generators this)"
            "generators this ! search_index h (generators this) x = x"
    using search_index_found[of x "generators this" h] True assms(1) by simp_all
  have "set (generators (removeGenerator h x this)) =
        set (generators this) - {generators this ! search_index h (generators this) x}"
    using ne has swap_remove_set[OF assms(2) idx(1)]
    by (simp add: removeGenerator_def Let_def)
  then show ?thesis by (simp only: idx(2))
next
  case False
  then have "\<not> hasGenerator h this x"
    by (simp add: hasGenerator_def contains_iff)
  then have "removeGenerator h x this = this"
    by (simp add: removeGenerator_def)
  then show ?thesis using False by simp
qed

lemma removeGenerator_distinct:
  assumes "h x \<noteq> None" "distinct (generators this)"
  shows "distinct (generators (removeGenerator h x this))"
proof (cases "x \<in> set (generators this)")
  case True
  then have ne: "generators this \<noteq> []" by auto
  have has: "hasGenerator h this x"
    using True assms by (simp add: hasGenerator_def contains_iff)
  have idx: "search_index h (generators this) x < length (generators this)"
    using search_index_found[of x "generators this" h] True assms(1) by simp
  show ?thesis
    using ne has swap_remove_distinct[OF assms(2) idx]
    by (simp add: removeGenerator_def Let_def)
next
  case False
  then have "\<not> hasGenerator h this x"
    by (simp add: hasGenerator_def contains_iff)
  then have "removeGenerator h x this = this"
    by (simp add: removeGenerator_def)
  then show ?thesis using assms by simp
qed

lemma callback_calls:
  "calls (fillBlock_callback d channels w g s) = calls s \<or>
   calls (fillBlock_callback d channels w g s) = calls s @ [Ev_run w]"
  by (simp add: fillBlock_callback_def Let_def)

lemma callback_heap_other:
  "x \<noteq> w \<Longrightarrow> heap (fillBlock_callback d channels w g s) x = heap s x"
  by (simp add: fillBlock_callback_def Let_def)

lemma callback_silent:
  "getChannels d g = 0 \<Longrightarrow> fillBlock_callback d channels w g s = s"
  by (simp add: fillBlock_callback_def)

lemma iterate_calls_subset:
  "set (calls (snd (iterate_removing heap ws (fillBlock_callback d channels) s)))
     \<subseteq> set (calls s) \<union> Ev_run ` set ws"
proof (induction ws arbitrary: s)
  case Nil
  show ?case by simp
next
  case (Cons w ws)
  show ?case
  proof (cases "heap s w")
    case None
    then show ?thesis using Cons.IH[of s] by auto
  next
    case (Some g)
    have "set (calls (fillBlock_callback d channels w g s)) \<subseteq> set (calls s) \<union> {Ev_run w}"
      using callback_calls[of d channels w g s] by auto
    then show ?thesis
      using Some Cons.IH[of "fillBlock_callback d channels w g s"]
      by (auto simp: Let_def)
  qed
qed

lemma iterate_calls_count:
  "count_list (calls (snd (iterate_removing heap ws (fillBlock_callback d channels) s))) (Ev_run x)
     \<le> count_list (calls s) (Ev_run x) + count_list ws x"
proof (induction ws arbitrary: s)
  case Nil
  show ?case by simp
next
  case (Cons w ws)
  show ?case
  proof (cases "heap s w")
    case None
    then show ?thesis using Cons.IH[of s] by auto
  next
    case (Some g)
    have "count_list (calls (fillBlock_callback d channels w g s)) (Ev_run x)
            \<le> count_list (calls s) (Ev_run x) + (if w = x then 1 else 0)"
      using callback_calls[of d channels w g s] by auto
    then show ?thesis
      using Some Cons.IH[of "fillBlock_callback d channels w g s"]
      by (auto simp: Let_def)
  qed
qed

lemma iterate_skip_silent:
  "heap s x = Some g0 \<Longrightarrow> getChannels d g0 = 0 \<Longrightarrow>
   snd (iterate_removing heap ws (fillBlock_callback d channels) s) =
     snd (iterate_removing heap (removeAll x ws) (fillBlock_callback d channels) s) \<and>
   removeAll x (fst (iterate_removing heap ws (fillBlock_callback d channels) s)) =
     fst (iterate_removing heap (removeAll x ws) (fillBlock_callback d channels) s)"
proof (induction ws arbitrary: s)
  case Nil
  show ?case by simp
next
  case (Cons w ws)
  show ?case
  proof (cases "w = x")
    case True
    then show ?thesis
      using Cons.prems Cons.IH[OF Cons.prems]
      by (simp add: callback_silent Let_def)
  next
    case False
    show ?thesis
    proof (cases "heap s w")
      case None
      then show ?thesis using False Cons.IH[OF Cons.prems] by simp
    next
      case (Some g)
      have "heap (fillBlock_callback d channels w g s) x = Some g0"
        using False Cons.prems(1) by (simp add: callback_heap_other)
      from Cons.IH[OF this Cons.prems(2)] show ?thesis
        using False Some by (simp add: Let_def)
    qed
  qed
qed

lemma fillBlock_calls_subset:
  "set (snd (snd (fillBlock d time channels h this)))
     \<subseteq> {Ev_tickPausable, Ev_routeAudio channels} \<union> Ev_run ` set (generators this)"
  using iterate_calls_subset[where d = d and channels = channels and ws = "generators this"
          and s = "\<lparr> heap = h, premix = (\<lambda>k. 0),
             mixed = fill_zero (channels * BLOCK_SIZE) (block this),
             calls = [Ev_tickPausable] \<rparr>"]
  by (auto simp: fillBlock_def Let_def)

lemma fillBlock_calls_count:
  "count_list (snd (snd (fillBlock d time channels h this))) (Ev_run x)
     \<le> count_list (generators this) x"
  using iterate_calls_count[where d = d and channels = channels and ws = "generators this"
          and x = x and s = "\<lparr> heap = h, premix = (\<lambda>k. 0),
             mixed = fill_zero (channels * BLOCK_SIZE) (block this),
             calls = [Ev_tickPausable] \<rparr>"]
  by (auto simp: fillBlock_def Let_def)

lemma demo_heap_simps:
  "demo_heap 3 = Some (2, 1 / 4)" "demo_heap 5 = Some (0, 1)" "demo_heap 7 = Some (1, 1 / 2)"
  by (simp_all add: demo_heap_def)

lemma update_gain_demo: "update_gain demo time r = r"
  by (simp add: update_gain_def demo_def)

lemma distinct_count_le_1: "distinct ws \<Longrightarrow> count_list ws x \<le> 1"
  by (induction ws) auto

lemma demo_simps:
  "getChannels demo g = fst g" "isPaused demo r = fst r"
  "tickPausable demo r = (fst r, Suc (snd r))"
  by (simp_all add: demo_def)

lemma fillBlock_demo_calls:
  "snd (snd (fillBlock demo 0 2 demo_heap two_gen_source)) =
     [Ev_tickPausable, Ev_run 3, Ev_routeAudio 2]"
  by (simp add: fillBlock_def Let_def update_gain_demo two_gen_source_def demo_simps
        fillBlock_callback_def demo_heap_simps)

lemma iterate_removing_sublist:
  "set (fst (iterate_removing heap_of ws c s)) \<subseteq> set ws \<and>
   (distinct ws \<longrightarrow> distinct (fst (iterate_removing heap_of ws c s)))"
  by (induction ws arbitrary: s) (auto simp: Let_def split: option.splits)

lemma fillBlock_distinct:
  "distinct (generators this) \<Longrightarrow>
   distinct (generators (fst (snd (fillBlock d time channels h this))))"
  by (simp add: fillBlock_def Let_def iterate_removing_sublist)

section \<open>Properties of the property dispatcher\<close>

lemma hasProperty_Class:
  "hasProperty base_has (Class PROPERTY_LIST PROPERTY_BASE) property =
     (switch_case PROPERTY_LIST property \<noteq> None)"
  by (simp split: option.splits)

lemma switch_case_examples:
  "switch_case PANNED_SOURCE_PROPERTIES SYZ_P_GAIN = None"
  "switch_case SOURCE_PROPERTIES SYZ_P_GAIN = Some (DOUBLE_P SYZ_P_GAIN (Finite 0) (Finite P_DOUBLE_MAX))"
  "switch_case PANNED_SOURCE_PROPERTIES SYZ_P_PANNER_STRATEGY = Some (INT_P SYZ_P_PANNER_STRATEGY 0 1)"
  "switch_case BUFFER_GENERATOR_PROPERTIES SYZ_P_BUFFER = Some (OBJECT_P SYZ_P_BUFFER ''Buffer'')"
  by (simp_all add: switch_case_def PANNED_SOURCE_PROPERTIES_def SOURCE_PROPERTIES_def
        BUFFER_GENERATOR_PROPERTIES_def SYZ_P_GAIN_def SYZ_P_AZIMUTH_def SYZ_P_ELEVATION_def
        SYZ_P_PANNING_SCALAR_def SYZ_P_PANNER_STRATEGY_def SYZ_P_BUFFER_def SYZ_P_LOOPING_def)









section \<open>Claims about the biquad filter\<close>

text \<open>
  C1.  The specification: after \<^verbatim>\<open>configure\<close> has set the crossfade flag, one call of
  \<^verbatim>\<open>processBlock\<close> clears the flag and flips the active index.  The code does not:
  every branch of the conditional of \<^verbatim>\<open>processBlock\<close> returns, so the statements
  that clear the flag and flip the index are never reached.  For every filter, every
  configuration, every input and both values of \<^verbatim>\<open>add\<close>, the flag is still set after
  the call and the active index is the one before \<^verbatim>\<open>configure\<close>.
\<close>

theorem C1_processBlock_keeps_crossfading:
  "crossfade (fst (processBlock tick C add (configure setParameters config this) inp out)) \<and>
   active (fst (processBlock tick C add (configure setParameters config this) inp out)) =
     active this"
  by (simp add: processBlock_eq processBlockImpl_flags configure_flags)

text \<open>
  C2.  The specification: with \<^verbatim>\<open>add = false\<close> and the crossfade flag clear, the output is
  the active filter applied to the input, with no contribution of the inactive
  filter.  The code runs \<^verbatim>\<open>processBlockImpl<false, true>\<close> whatever the flag is; the
  instance \<^verbatim>\<open>processBlockImpl<false, false>\<close>, which no branch calls, would leave the
  output as it was.  On a freshly constructed one-channel filter (both filters the
  wire, flag clear), the input that is 1 everywhere and a zeroed output, the active
  filter's output at frame 128 is 1, and the code writes 1/2 there.
\<close>

theorem C2_no_add_always_crossfades:
  "processBlock tick C False this inp out = processBlockImpl False True tick C this inp out \<and>
   snd (processBlockImpl False False tick C this inp out) = out \<and>
   \<not> crossfade fresh_biquad \<and>
   tick_out scale_tick 1 (\<lambda>_. 1) (filters fresh_biquad (unat (active fresh_biquad))) 128 0 = 1 \<and>
   snd (processBlock scale_tick 1 False fresh_biquad (\<lambda>_. 1) (\<lambda>_. 0)) 128 = 1 / 2"
proof (intro conjI)
  show "processBlock tick C False this inp out =
          processBlockImpl False True tick C this inp out"
    by (simp add: processBlock_eq)
  show "snd (processBlockImpl False False tick C this inp out) = out"
    by (rule processBlockImpl_plain)
  show "\<not> crossfade fresh_biquad"
    by (simp add: fresh_biquad_simps)
  show "tick_out scale_tick 1 (\<lambda>_. 1) (filters fresh_biquad (unat (active fresh_biquad))) 128 0
          = 1"
    by (simp add: tick_out_scale fresh_biquad_simps)
  show "snd (processBlock scale_tick 1 False fresh_biquad (\<lambda>_. 1) (\<lambda>_. 0)) 128 = 1 / 2"
    by (simp add: processBlock_eq processBlockImpl_out block_result_def tick_out_scale
          fresh_biquad_simps BLOCK_SIZE_def)
qed

text \<open>
  C4.  The specification: in the block rendered while the crossfade flag is set, frame \<open>i\<close> of
  the output is \<open>(1 - i / BLOCK_SIZE)\<close> times the inactive filter's output plus
  \<open>i / BLOCK_SIZE\<close> times the active filter's output, summed onto the existing output
  when adding.  The code ticks the active filter into the output frame and blends
  \<^verbatim>\<open>tmp\<close>, which is still zero: without \<^verbatim>\<open>add\<close> the block is the inactive filter's
  output times \<open>1 - i / BLOCK_SIZE\<close> alone, and with \<^verbatim>\<open>add\<close> it is the active filter's
  whole output plus that, the previous content of the output being overwritten.  With
  both filters the wire and the input 1 everywhere the blend of the specification is 1 at
  frame 128, and the code writes 1/2.
\<close>

theorem C4_crossfade_block_drops_active_output:
  "snd (processBlock tick C add (configure setParameters config this) inp out) =
     (\<lambda>k. if k < C * BLOCK_SIZE
          then (if add
                then tick_out tick C inp
                       (filters (configure setParameters config this) (unat (active this)))
                       (k div C) (k mod C)
                else 0)
             + tick_out tick C inp
                 (filters (configure setParameters config this) (unat (active this XOR 1)))
                 (k div C) (k mod C) * (1 - real (k div C) / real BLOCK_SIZE)
          else out k) \<and>
   snd (processBlock scale_tick 1 False
          (configure scale_setParameters wire_config fresh_biquad) (\<lambda>_. 1) (\<lambda>_. 0)) 128
     = 1 / 2 \<and>
   spec_crossfade_blend False scale_tick 1 (\<lambda>_. 1)
       (filters (configure scale_setParameters wire_config fresh_biquad) 0)
       (filters (configure scale_setParameters wire_config fresh_biquad) 1) (\<lambda>_. 0) 128
     = 1"
proof (intro conjI)
  show "snd (processBlock tick C add (configure setParameters config this) inp out) =
     (\<lambda>k. if k < C * BLOCK_SIZE
          then (if add
                then tick_out tick C inp
                       (filters (configure setParameters config this) (unat (active this)))
                       (k div C) (k mod C)
                else 0)
             + tick_out tick C inp
                 (filters (configure setParameters config this) (unat (active this XOR 1)))
                 (k div C) (k mod C) * (1 - real (k div C) / real BLOCK_SIZE)
          else out k)"
    unfolding processBlock_eq processBlockImpl_out
    by (rule ext) (simp add: block_result_def configure_flags Let_def)
  show "snd (processBlock scale_tick 1 False
          (configure scale_setParameters wire_config fresh_biquad) (\<lambda>_. 1) (\<lambda>_. 0)) 128
     = 1 / 2"
    by (simp add: processBlock_eq processBlockImpl_out block_result_def configure_flags
          tick_out_scale fresh_biquad_simps BLOCK_SIZE_def)
  show "spec_crossfade_blend False scale_tick 1 (\<lambda>_. 1)
       (filters (configure scale_setParameters wire_config fresh_biquad) 0)
       (filters (configure scale_setParameters wire_config fresh_biquad) 1) (\<lambda>_. 0) 128
     = 1"
    by (simp add: spec_crossfade_blend_def tick_out_scale fresh_biquad_simps BLOCK_SIZE_def)
qed

section \<open>Claims about the property dispatcher and filter design\<close>

text \<open>
  C3.  The specification: \<^verbatim>\<open>hasProperty(id)\<close> is true whenever the object's class or
  one of its bases declares the property, and false only when no class of the chain
  does.  The code answers for the most derived class alone: the default label calls
  the base class and drops its answer, so \<^verbatim>\<open>hasProperty\<close> of a class is true exactly
  for the entries of its own list.  A panned source, whose base (the source) declares
  the gain, answers false for \<^verbatim>\<open>SYZ_P_GAIN\<close>, while the source itself answers true.
\<close>

theorem C3_hasProperty_drops_the_base_answer:
  "hasProperty base_has (Class PROPERTY_LIST PROPERTY_BASE) property =
     (switch_case PROPERTY_LIST property \<noteq> None) \<and>
   declares PannedSource_class SYZ_P_GAIN \<and>
   hasProperty base_has Source_class SYZ_P_GAIN \<and>
   \<not> hasProperty base_has PannedSource_class SYZ_P_GAIN"
  unfolding PannedSource_class_def Source_class_def hasProperty_Class
  by (simp add: switch_case_examples)




text \<open>
  C8.  \<^verbatim>\<open>syz_designBiquadLowpass\<close> is a function of the frequency and \<open>q\<close>: the result
  does not depend on what \<^verbatim>\<open>*filter\<close> held before the call, two calls with the same
  arguments agree, the error code is 0, and the six coefficients are those of the
  design function at the frequency divided by 44100 and at \<open>q\<close>.
\<close>

theorem C8_designBiquadLowpass_function_of_arguments:
  "syz_designBiquadLowpass designAudioEqLowpass filter1 frequency q =
     syz_designBiquadLowpass designAudioEqLowpass filter2 frequency q \<and>
   syz_designBiquadLowpass designAudioEqLowpass filter1 frequency q =
     (0, \<lparr> b0 = num_coefs (designAudioEqLowpass (frequency / 44100) q) 0,
           b1 = num_coefs (designAudioEqLowpass (frequency / 44100) q) 1,
           b2 = num_coefs (designAudioEqLowpass (frequency / 44100) q) 2,
           a1 = den_coefs (designAudioEqLowpass (frequency / 44100) q) 0,
           a2 = den_coefs (designAudioEqLowpass (frequency / 44100) q) 1,
           gain = def_gain (designAudioEqLowpass (frequency / 44100) q) \<rparr>)"
  by (simp add: syz_designBiquadLowpass_def convertBiquadDef_def SR_def)

section \<open>Claims about sources\<close>

text \<open>
  C5, as the specification states it, fails: for a paused source \<^verbatim>\<open>fillBlock\<close> is said
  to tick the pausable state before it returns.  The code tests \<^verbatim>\<open>isPaused()\<close> and
  returns before the call of \<^verbatim>\<open>tickPausable()\<close>.  For the paused source
  \<open>paused_source\<close> no tick is among the calls of the block, and the rest of the
  source is not what the tick would have made of it.
\<close>

theorem C5_paused_source_is_not_ticked:
  "isPaused demo (rest paused_source) \<and>
   Ev_tickPausable \<notin> set (snd (snd (fillBlock demo 0 2 demo_heap paused_source))) \<and>
   rest (fst (snd (fillBlock demo 0 2 demo_heap paused_source)))
     \<noteq> tickPausable demo (rest paused_source)"
  by (simp add: fillBlock_def Let_def update_gain_demo paused_source_def) (simp add: demo_def)

text \<open>
  C5, amended.  For every source that is paused once the gain has been updated,
  \<^verbatim>\<open>fillBlock\<close> returns early without ticking the pausable state: the heap and the
  generator list are unchanged, the first \<open>channels * BLOCK_SIZE\<close> samples of the block
  are zero, and the block makes no call at all, so no generator is run and no audio
  is routed.
\<close>

theorem C5_paused_fillBlock_returns_before_tick:
  "isPaused d (update_gain d time (rest this)) \<Longrightarrow>
   fillBlock d time channels h this =
     (h, this\<lparr> block := fill_zero (channels * BLOCK_SIZE) (block this),
               rest := update_gain d time (rest this) \<rparr>, []) \<and>
   (\<forall>k < channels * BLOCK_SIZE. block (fst (snd (fillBlock d time channels h this))) k = 0) \<and>
   Ev_tickPausable \<notin> set (snd (snd (fillBlock d time channels h this))) \<and>
   Ev_routeAudio channels \<notin> set (snd (snd (fillBlock d time channels h this))) \<and>
   (\<forall>x. Ev_run x \<notin> set (snd (snd (fillBlock d time channels h this))))"
  by (simp add: fillBlock_def Let_def fill_zero_def)

theorem C5_witness:
  "isPaused demo (update_gain demo 0 (rest paused_source)) \<and>
   fillBlock demo 0 2 demo_heap paused_source =
     (demo_heap,
      paused_source\<lparr> block := fill_zero (2 * BLOCK_SIZE) (block paused_source) \<rparr>, [])"
proof -
  have p: "isPaused demo (update_gain demo 0 (rest paused_source))"
    by (simp add: update_gain_demo paused_source_def demo_simps)
  show ?thesis
    using p C5_paused_fillBlock_returns_before_tick[OF p, of 2 demo_heap]
    by (simp add: update_gain_demo)
qed

text \<open>
  C7.  For every source whose generator list has no duplicates and every generator
  \<open>x\<close> that is alive (the caller holds a shared pointer to it): after
  \<^verbatim>\<open>addGenerator\<close> and then \<^verbatim>\<open>removeGenerator\<close> of \<open>x\<close>, \<open>x\<close> is not in the list, and the
  next \<^verbatim>\<open>fillBlock\<close> does not run it, whatever the heap is by then.  That the list has
  no duplicates is an invariant: the lemmas \<open>addGenerator_distinct\<close>,
  \<open>removeGenerator_distinct\<close> and \<open>fillBlock_distinct\<close> say that every operation keeps it.
\<close>

theorem C7_add_then_remove_leaves_generator_out:
  assumes "h x \<noteq> None" "distinct (generators this)"
  shows "x \<notin> set (generators (removeGenerator h x (addGenerator h x this))) \<and>
         Ev_run x \<notin> set (snd (snd (fillBlock d time channels h'
                                   (removeGenerator h x (addGenerator h x this)))))"
proof -
  have "distinct (generators (addGenerator h x this))"
    using assms by (rule addGenerator_distinct)
  then have "set (generators (removeGenerator h x (addGenerator h x this)))
             = set (generators (addGenerator h x this)) - {x}"
    using assms(1) by (simp add: removeGenerator_set)
  then have out: "x \<notin> set (generators (removeGenerator h x (addGenerator h x this)))"
    by simp
  then have "Ev_run x \<notin> Ev_run ` set (generators (removeGenerator h x (addGenerator h x this)))"
    by auto
  then have "Ev_run x \<notin> set (snd (snd (fillBlock d time channels h'
                                   (removeGenerator h x (addGenerator h x this)))))"
    using fillBlock_calls_subset[of d time channels h' "removeGenerator h x (addGenerator h x this)"]
    by auto
  with out show ?thesis by simp
qed

theorem C7_witness:
  "demo_heap 7 \<noteq> None \<and> distinct (generators two_gen_source) \<and>
   generators (addGenerator demo_heap 7 two_gen_source) = [3, 5, 7] \<and>
   generators (removeGenerator demo_heap 7 (addGenerator demo_heap 7 two_gen_source)) = [3, 5] \<and>
   Ev_run 7 \<notin> set (snd (snd (fillBlock demo 0 2 demo_heap
                  (removeGenerator demo_heap 7 (addGenerator demo_heap 7 two_gen_source)))))"
proof -
  have a: "demo_heap 7 \<noteq> None" by (simp add: demo_heap_def)
  have b: "distinct (generators two_gen_source)" by (simp add: two_gen_source_def)
  have c: "generators (addGenerator demo_heap 7 two_gen_source) = [3, 5, 7]"
    by (simp add: addGenerator_def hasGenerator_def two_gen_source_def lock_def demo_heap_simps)
  have e: "generators (removeGenerator demo_heap 7 (addGenerator demo_heap 7 two_gen_source)) = [3, 5]"
    by (simp add: removeGenerator_def addGenerator_def hasGenerator_def two_gen_source_def lock_def demo_heap_simps)
  show ?thesis
    using a b c e
      C7_add_then_remove_leaves_generator_out[where h = demo_heap and x = 7
        and this = two_gen_source and d = demo and time = 0 and channels = 2 and h' = demo_heap]
    by simp
qed

text \<open>
  C9.  For every generator \<open>x\<close> that is alive and whose \<^verbatim>\<open>getChannels()\<close> is 0:
  \<^verbatim>\<open>fillBlock\<close> does not run \<open>x\<close>, and the calls it makes, the block it leaves, and the
  heap are those of the same source with \<open>x\<close> taken out of its generator list.
\<close>

theorem C9_silent_generator_contributes_nothing:
  assumes "h x = Some g0" "getChannels d g0 = 0"
  shows "Ev_run x \<notin> set (snd (snd (fillBlock d time channels h this))) \<and>
         snd (snd (fillBlock d time channels h this)) =
           snd (snd (fillBlock d time channels h
                       (this\<lparr> generators := removeAll x (generators this) \<rparr>))) \<and>
         block (fst (snd (fillBlock d time channels h this))) =
           block (fst (snd (fillBlock d time channels h
                              (this\<lparr> generators := removeAll x (generators this) \<rparr>)))) \<and>
         fst (fillBlock d time channels h this) =
           fst (fillBlock d time channels h
                  (this\<lparr> generators := removeAll x (generators this) \<rparr>))"
proof -
  let ?absent = "this\<lparr> generators := removeAll x (generators this) \<rparr>"
  let ?s0 = "\<lparr> heap = h, premix = (\<lambda>k. 0),
               mixed = fill_zero (channels * BLOCK_SIZE) (block this),
               calls = [Ev_tickPausable] \<rparr>"
  have "heap ?s0 x = Some g0" using assms(1) by simp
  from iterate_skip_silent[OF this assms(2), of "generators this" channels]
  have it: "snd (iterate_removing heap (generators this) (fillBlock_callback d channels) ?s0) =
            snd (iterate_removing heap (removeAll x (generators this))
                   (fillBlock_callback d channels) ?s0)"
    by simp
  have same: "snd (snd (fillBlock d time channels h this)) =
                snd (snd (fillBlock d time channels h ?absent))"
             "block (fst (snd (fillBlock d time channels h this))) =
                block (fst (snd (fillBlock d time channels h ?absent)))"
             "fst (fillBlock d time channels h this) = fst (fillBlock d time channels h ?absent)"
    using it by (simp_all add: fillBlock_def Let_def)
  have "Ev_run x \<notin> Ev_run ` set (generators ?absent)" by auto
  then have "Ev_run x \<notin> set (snd (snd (fillBlock d time channels h ?absent)))"
    using fillBlock_calls_subset[of d time channels h ?absent] by auto
  with same show ?thesis by simp
qed

theorem C9_witness:
  "demo_heap 5 = Some (0, 1) \<and> getChannels demo (0 :: nat, 1 :: real) = 0 \<and>
   Ev_run 5 \<notin> set (snd (snd (fillBlock demo 0 2 demo_heap two_gen_source))) \<and>
   snd (snd (fillBlock demo 0 2 demo_heap two_gen_source)) =
     snd (snd (fillBlock demo 0 2 demo_heap (two_gen_source\<lparr> generators := [3] \<rparr>)))"
proof -
  have a: "demo_heap 5 = Some (0, 1)" by (simp add: demo_heap_def)
  have b: "getChannels demo (0 :: nat, 1 :: real) = 0" by (simp add: demo_simps)
  have c: "removeAll 5 (generators two_gen_source) = [3]" by (simp add: two_gen_source_def)
  have main: "Ev_run 5 \<notin> set (snd (snd (fillBlock demo 0 2 demo_heap two_gen_source))) \<and>
        snd (snd (fillBlock demo 0 2 demo_heap two_gen_source)) =
          snd (snd (fillBlock demo 0 2 demo_heap
                      (two_gen_source\<lparr> generators := removeAll 5 (generators two_gen_source) \<rparr>)))"
    using a b
      C9_silent_generator_contributes_nothing[where h = demo_heap and x = 5 and ?g0.0 = "(0, 1)"
        and d = demo and time = 0 and channels = 2 and this = two_gen_source]
    by blast
  show ?thesis
    using a b main[unfolded c] by blast
qed

text \<open>
  C10.  For every generator \<open>x\<close> that is alive: \<^verbatim>\<open>addGenerator\<close> of \<open>x\<close> leaves a source
  that already holds \<open>x\<close> as it is, adding twice is adding once, and when the list had
  no duplicates, then after any number \<open>n\<close> of additions it has none, \<open>x\<close> is in it at
  most once, and a block runs \<open>x\<close> at most once.
\<close>

theorem C10_addGenerator_idempotent:
  assumes "h x \<noteq> None"
  shows "(x \<in> set (generators this) \<longrightarrow> addGenerator h x this = this) \<and>
         addGenerator h x (addGenerator h x this) = addGenerator h x this \<and>
         (distinct (generators this) \<longrightarrow>
            distinct (generators ((addGenerator h x ^^ n) this)) \<and>
            count_list (generators ((addGenerator h x ^^ n) this)) x \<le> 1 \<and>
            count_list (snd (snd (fillBlock d time channels h'
                                    ((addGenerator h x ^^ n) this)))) (Ev_run x) \<le> 1)"
proof (intro conjI impI)
  show "addGenerator h x this = this" if "x \<in> set (generators this)"
    using that assms by (simp add: addGenerator_def hasGenerator_def contains_iff)
  have "x \<in> set (generators (addGenerator h x this))"
    using assms by (simp add: addGenerator_generators)
  then show "addGenerator h x (addGenerator h x this) = addGenerator h x this"
    using assms by (simp add: addGenerator_def hasGenerator_def contains_iff)
next
  assume d: "distinct (generators this)"
  show dn: "distinct (generators ((addGenerator h x ^^ n) this))"
    using assms d by (induction n) (simp_all add: addGenerator_distinct)
  then show c: "count_list (generators ((addGenerator h x ^^ n) this)) x \<le> 1"
    by (rule distinct_count_le_1)
  show "count_list (snd (snd (fillBlock d time channels h'
                                ((addGenerator h x ^^ n) this)))) (Ev_run x) \<le> 1"
    using fillBlock_calls_count[of d time channels h' "(addGenerator h x ^^ n) this" x] c
    by simp
qed

theorem C10_witness:
  "demo_heap 3 \<noteq> None \<and> 3 \<in> set (generators two_gen_source) \<and>
   distinct (generators two_gen_source) \<and>
   addGenerator demo_heap 3 two_gen_source = two_gen_source \<and>
   count_list (snd (snd (fillBlock demo 0 2 demo_heap
                           ((addGenerator demo_heap 3 ^^ 4) two_gen_source)))) (Ev_run 3) \<le> 1"
proof -
  have a: "demo_heap 3 \<noteq> None" by (simp add: demo_heap_def)
  have b: "3 \<in> set (generators two_gen_source)" "distinct (generators two_gen_source)"
    by (simp_all add: two_gen_source_def)
  show ?thesis
    using a b
      C10_addGenerator_idempotent[where h = demo_heap and x = 3 and this = two_gen_source
        and n = 4 and d = demo and time = 0 and channels = 2 and h' = demo_heap]
    by simp
qed

end
